theory Spec2Isabelle
  imports Main "HOL-Library.AList" "HOL-Library.Sublist"
begin

section \<open>JavaScript values and exceptions\<close>

text \<open>
  A JavaScript reference is \<open>undefined\<close>, \<open>null\<close> or an object. The two empty values
  are kept apart because \<open>onAuthStateChanged\<close> tests \<open>currentUser !== undefined\<close>.
\<close>

datatype 'a js = Undefined | Null | Obj 'a

fun truthy :: "'a js \<Rightarrow> bool" where
  "truthy (Obj _) = True"
| "truthy _ = False"

datatype exn =
    QuotaExceededError
  | SyntaxError
  | NotFound
  | Error string

text \<open>
  How a call ends: it returns a value in a new state, it throws in a new state, or it
  never returns.
\<close>

datatype ('s, 'v) outcome = Returns 's 'v | Throws 's exn | Diverges

text \<open>The value a call returned, if it returned.\<close>

fun returned_value :: "('s, 'v) outcome \<Rightarrow> 'v option" where
  "returned_value (Returns s v) = Some v"
| "returned_value (Throws s e) = None"
| "returned_value Diverges = None"

text \<open>A string is truthy when it is not empty; \<open>null\<close> (here \<open>None\<close>) is falsy.\<close>

definition truthy_str :: "string option \<Rightarrow> bool" where
  "truthy_str s = (case s of None \<Rightarrow> False | Some v \<Rightarrow> v \<noteq> [])"

text \<open>\<open>String.prototype.replace\<close> with a string pattern replaces the first occurrence.\<close>

fun replace_first :: "string \<Rightarrow> string \<Rightarrow> string \<Rightarrow> string" where
  "replace_first pat rep [] = (if pat = [] then rep else [])"
| "replace_first pat rep (c # cs) =
     (if prefix pat (c # cs) then rep @ drop (length pat) (c # cs)
      else c # replace_first pat rep cs)"

section \<open>Local durable storage (\<open>window.localStorage\<close>)\<close>

text \<open>
  The browser's key-value store, as an association list read with \<open>map_of\<close>. Its one
  failure mode is the capacity: \<open>setItem\<close> throws \<open>QuotaExceededError\<close> when the
  stored keys and values would be longer than the quota. Reads and removals do not fail.
\<close>

record local_storage =
  entries :: "(string \<times> string) list"
  quota :: nat

definition storage_size :: "(string \<times> string) list \<Rightarrow> nat" where
  "storage_size es = sum_list (map (\<lambda>kv. length (fst kv) + length (snd kv)) es)"

definition getItem :: "local_storage \<Rightarrow> string \<Rightarrow> string option" where
  "getItem ls k = map_of (entries ls) k"

definition setItem :: "local_storage \<Rightarrow> string \<Rightarrow> string \<Rightarrow> exn + local_storage" where
  "setItem ls k v =
     (let es = AList.update k v (entries ls)
      in if quota ls < storage_size es then Inl QuotaExceededError
         else Inr (ls\<lparr>entries := es\<rparr>))"


definition Object_keys :: "local_storage \<Rightarrow> string list" where
  "Object_keys ls = remdups (map fst (entries ls))"

section \<open>The remote progress store (Firestore)\<close>

text \<open>
  Documents of \<open>users/{uid}\<close> and \<open>users/{uid}/progress/{problemId}\<close>, each collection
  an association list from document id to document. \<open>serverTimestamp()\<close> is resolved by
  the store's clock when a write commits, and the clock advances with every write.
  \<open>update\<close> fails on a missing document, \<open>set\<close> creates it. The store is taken to be
  reachable: no other failure of the remote side is modelled. Profile fields that no
  function below reads or writes are left out of \<open>user_doc\<close>.
\<close>

record user_stats =
  problemsSolved :: int
  problemsAccessed :: int
  totalTimeSpent :: int
  lastActivityAt :: nat

record user_doc =
  totalLogins :: int
  stats :: user_stats

record progress_doc =
  problemId :: string
  category :: string
  status :: string
  firstAccessedAt :: nat
  lastUpdatedAt :: nat
  solvedAt :: "nat option"
  timeSpent :: int
  viewCount :: int

record firestore =
  users :: "(string \<times> user_doc) list"
  progress :: "((string \<times> string) \<times> progress_doc) list"
  clock :: nat

definition userRef_get :: "firestore \<Rightarrow> string \<Rightarrow> user_doc option" where
  "userRef_get fs userId = map_of (users fs) userId"

definition progressRef_get :: "firestore \<Rightarrow> string \<Rightarrow> string \<Rightarrow> progress_doc option" where
  "progressRef_get fs userId pid = map_of (progress fs) (userId, pid)"

definition userRef_update ::
  "firestore \<Rightarrow> string \<Rightarrow> (nat \<Rightarrow> user_doc \<Rightarrow> user_doc) \<Rightarrow> exn + firestore" where
  "userRef_update fs userId f =
     (case userRef_get fs userId of
        None \<Rightarrow> Inl NotFound
      | Some d \<Rightarrow> Inr (fs\<lparr>users := AList.update userId (f (clock fs) d) (users fs),
                          clock := Suc (clock fs)\<rparr>))"

definition progressRef_update ::
  "firestore \<Rightarrow> string \<Rightarrow> string \<Rightarrow> (nat \<Rightarrow> progress_doc \<Rightarrow> progress_doc) \<Rightarrow> exn + firestore" where
  "progressRef_update fs userId pid f =
     (case progressRef_get fs userId pid of
        None \<Rightarrow> Inl NotFound
      | Some d \<Rightarrow> Inr (fs\<lparr>progress := AList.update (userId, pid) (f (clock fs) d) (progress fs),
                          clock := Suc (clock fs)\<rparr>))"

definition progressRef_set ::
  "firestore \<Rightarrow> string \<Rightarrow> string \<Rightarrow> (nat \<Rightarrow> progress_doc) \<Rightarrow> firestore" where
  "progressRef_set fs userId pid mk =
     fs\<lparr>progress := AList.update (userId, pid) (mk (clock fs)) (progress fs),
        clock := Suc (clock fs)\<rparr>"

section \<open>database.js\<close>

text \<open>
  The module variable \<open>db\<close> is \<open>null\<close> until Firestore is initialised: \<open>None\<close> here,
  and \<open>Some\<close> of the remote contents once the handle exists. A user id or problem id
  that is falsy is the empty string. The \<open>console\<close> output of this module is not kept.
\<close>

type_synonym database = "firestore option"

definition PROBLEM_CATEGORIES :: "(string \<times> string) list" where
  "PROBLEM_CATEGORIES =
     [(''lc'', ''LeetCode''), (''mlsd'', ''ML System Design''),
      (''mlcoding'', ''ML Coding''), (''behavioral'', ''Behavioral'')]"

definition categoryName :: "string \<Rightarrow> string" where
  "categoryName pid =
     (case map_of PROBLEM_CATEGORIES (takeWhile (\<lambda>c. c \<noteq> CHR ''_'') pid) of
        None \<Rightarrow> ''Unknown''
      | Some n \<Rightarrow> (if n = [] then ''Unknown'' else n))"

text \<open>
  The argument of \<open>updateUserStats\<close>: the increments, where a field that the caller
  left out is 0 (both are falsy in the \<open>if (stats.x)\<close> tests).
\<close>

record stats_arg =
  inc_problemsSolved :: int
  inc_problemsAccessed :: int
  inc_totalTimeSpent :: int

definition apply_stats :: "stats_arg \<Rightarrow> nat \<Rightarrow> user_doc \<Rightarrow> user_doc" where
  "apply_stats a now d =
     d\<lparr>stats := (stats d)\<lparr>
        lastActivityAt := now,
        problemsSolved :=
          (if inc_problemsSolved a \<noteq> 0 then problemsSolved (stats d) + inc_problemsSolved a
           else problemsSolved (stats d)),
        problemsAccessed :=
          (if inc_problemsAccessed a \<noteq> 0 then problemsAccessed (stats d) + inc_problemsAccessed a
           else problemsAccessed (stats d)),
        totalTimeSpent :=
          (if inc_totalTimeSpent a \<noteq> 0 then totalTimeSpent (stats d) + inc_totalTimeSpent a
           else totalTimeSpent (stats d))\<rparr>\<rparr>"

definition updateUserStats :: "database \<Rightarrow> string \<Rightarrow> stats_arg \<Rightarrow> database \<times> bool" where
  "updateUserStats db userId a =
     (case db of
        None \<Rightarrow> (db, False)
      | Some fs \<Rightarrow>
          if userId = [] then (db, False)
          else (case userRef_update fs userId (apply_stats a) of
                  Inl e \<Rightarrow> (db, False)
                | Inr fs' \<Rightarrow> (Some fs', True)))"

definition new_progress :: "string \<Rightarrow> string \<Rightarrow> nat \<Rightarrow> progress_doc" where
  "new_progress pid st now =
     \<lparr>problemId = pid, category = categoryName pid, status = st,
      firstAccessedAt = now, lastUpdatedAt = now,
      solvedAt = (if st = ''solved'' then Some now else None),
      timeSpent = 0, viewCount = 1\<rparr>"

definition progress_updates :: "string \<Rightarrow> bool \<Rightarrow> nat \<Rightarrow> progress_doc \<Rightarrow> progress_doc" where
  "progress_updates st newly_solved now d =
     (if newly_solved then d\<lparr>status := st, lastUpdatedAt := now, solvedAt := Some now\<rparr>
      else d\<lparr>status := st, lastUpdatedAt := now\<rparr>)"

definition updateProblemProgress ::
  "database \<Rightarrow> string \<Rightarrow> string \<Rightarrow> string \<Rightarrow> database \<times> bool" where
  "updateProblemProgress db userId pid st =
     (case db of
        None \<Rightarrow> (db, False)
      | Some fs \<Rightarrow>
          if userId = [] \<or> pid = [] then (db, False)
          else (case progressRef_get fs userId pid of
                  Some data \<Rightarrow>
                    let newly_solved = (st = ''solved'' \<and> status data \<noteq> ''solved'');
                        db1 = (if newly_solved
                               then fst (updateUserStats db userId
                                      \<lparr>inc_problemsSolved = 1, inc_problemsAccessed = 0,
                                       inc_totalTimeSpent = 0\<rparr>)
                               else db)
                    in (case db1 of
                          None \<Rightarrow> (db1, False)
                        | Some fs1 \<Rightarrow>
                            (case progressRef_update fs1 userId pid (progress_updates st newly_solved) of
                               Inl e \<Rightarrow> (db1, False)
                             | Inr fs2 \<Rightarrow> (Some fs2, True)))
                | None \<Rightarrow>
                    let fs1 = progressRef_set fs userId pid (new_progress pid st);
                        db2 = fst (updateUserStats (Some fs1) userId
                                \<lparr>inc_problemsSolved = (if st = ''solved'' then 1 else 0),
                                 inc_problemsAccessed = 1, inc_totalTimeSpent = 0\<rparr>)
                    in (db2, True)))"


text \<open>
  \<open>getAllProgress\<close>: the user's progress documents, latest \<open>lastUpdatedAt\<close> first, each
  as the pair of its document id and its data.
\<close>

definition getAllProgress :: "database \<Rightarrow> string \<Rightarrow> (string \<times> progress_doc) list" where
  "getAllProgress db userId =
     (case db of
        None \<Rightarrow> []
      | Some fs \<Rightarrow>
          if userId = [] then []
          else sort_key (\<lambda>item. - int (lastUpdatedAt (snd item)))
                 (map (\<lambda>kd. (snd (fst kd), snd kd))
                    (filter (\<lambda>kd. fst (fst kd) = userId) (progress fs))))"

definition push_step :: "local_storage \<Rightarrow> string \<Rightarrow> database \<times> nat \<Rightarrow> string \<Rightarrow> database \<times> nat" where
  "push_step ls userId acc key =
     (let st = getItem ls key;
          pid = replace_first ''progress_'' [] key
      in if truthy_str st \<and> pid \<noteq> []
         then (fst (updateProblemProgress (fst acc) userId pid (case st of Some v \<Rightarrow> v | None \<Rightarrow> [])),
               Suc (snd acc))
         else acc)"

definition syncLocalStorageToFirestore ::
  "local_storage \<Rightarrow> database \<Rightarrow> string \<Rightarrow> database \<times> nat" where
  "syncLocalStorageToFirestore ls db userId =
     (if db = None \<or> userId = [] then (db, 0)
      else foldl (push_step ls userId) (db, 0)
             (filter (prefix ''progress_'') (Object_keys ls)))"

fun pull_items :: "(string \<times> progress_doc) list \<Rightarrow> local_storage \<Rightarrow> nat \<Rightarrow> local_storage \<times> nat" where
  "pull_items [] ls n = (ls, n)"
| "pull_items (item # rest) ls n =
     (case setItem ls (''progress_'' @ problemId (snd item)) (status (snd item)) of
        Inl e \<Rightarrow> (ls, n)
      | Inr ls' \<Rightarrow> pull_items rest ls' (Suc n))"

definition syncFirestoreToLocalStorage ::
  "local_storage \<Rightarrow> database \<Rightarrow> string \<Rightarrow> local_storage \<times> nat" where
  "syncFirestoreToLocalStorage ls db userId =
     (if db = None \<or> userId = [] then (ls, 0)
      else pull_items (getAllProgress db userId) ls 0)"

text \<open>
  Reconciliation, as \<open>handleAuthStateChange\<close> chains it on sign-in: the push of the
  local ledger, then the pull of the remote one.
\<close>

definition reconcile :: "local_storage \<Rightarrow> database \<Rightarrow> string \<Rightarrow> local_storage \<times> database" where
  "reconcile ls db userId =
     (let db1 = fst (syncLocalStorageToFirestore ls db userId);
          ls1 = fst (syncFirestoreToLocalStorage ls db1 userId)
      in (ls1, db1))"

text \<open>
  The problem id that the push reads off a local key, \<open>key.replace('progress_', '')\<close>.
\<close>

definition problem_of_key :: "string \<Rightarrow> string" where
  "problem_of_key key = replace_first ''progress_'' [] key"

text \<open>
  The remote ledger as the code writes it: a document id occurs once in a collection,
  and a progress record carries its own document id in \<open>problemId\<close>
  (\<open>updateProblemProgress\<close> creates it so).
\<close>

definition wf_store :: "firestore \<Rightarrow> bool" where
  "wf_store fs =
     (distinct (map fst (progress fs)) \<and>
      (\<forall>kd \<in> set (progress fs). problemId (snd kd) = snd (fst kd)))"

definition wf_database :: "database \<Rightarrow> bool" where
  "wf_database db = (case db of None \<Rightarrow> True | Some fs \<Rightarrow> wf_store fs)"

text \<open>A progress ledger with the \<open>lastUpdatedAt\<close> of every record blanked out.\<close>

definition forget_updated :: "progress_doc \<Rightarrow> progress_doc" where
  "forget_updated d = d\<lparr>lastUpdatedAt := 0\<rparr>"

definition ledger_view :: "firestore \<Rightarrow> ((string \<times> string) \<times> progress_doc) list" where
  "ledger_view fs = map (\<lambda>kd. (fst kd, forget_updated (snd kd))) (progress fs)"







definition status_of :: "database \<Rightarrow> string \<Rightarrow> string \<Rightarrow> string option" where
  "status_of db userId pid =
     (case db of None \<Rightarrow> None
      | Some fs \<Rightarrow> map_option status (progressRef_get fs userId pid))"

section \<open>auth.js: the page state\<close>

text \<open>
  The Firebase user object, as far as the module reads it.
\<close>

record provider_info =
  providerId :: string

record user =
  uid :: string
  email :: "string option"
  displayName :: "string option"
  photoURL :: "string option"
  emailVerified :: bool
  providerData :: "provider_info list"

record session_data =
  session_uid :: string
  session_email :: "string option"
  session_displayName :: "string option"
  session_photoURL :: "string option"
  session_emailVerified :: bool
  session_providerId :: string
  session_lastLoginAt :: string

datatype console_entry = Log string | Warn string | ErrorLog string

text \<open>
  The state of a page that has loaded the scripts. A function object is an address
  (\<open>indexOf\<close> compares callbacks by identity); \<open>fn_objects\<close> gives the behaviour of the
  function at each address: called with the user, it acts on the part \<open>world\<close> of the
  state, and returns, throws or does not return. A callback does not call back into
  \<open>onAuthStateChanged\<close> or an unsubscribe handle while it runs. \<open>calls\<close> is a trace of
  the callback invocations, kept to state what was delivered: the function, the value
  it was called with, and the exception if it threw. \<open>db_sync_started\<close> lists the
  users for whom the asynchronous database chain was started.
\<close>

record 'x page =
  MLInterviewAuth :: bool
  MLInterviewDB :: bool
  currentUser :: "user js"
  authStateListeners :: "nat list"
  fn_objects :: "nat \<Rightarrow> user js \<Rightarrow> 'x \<Rightarrow> ('x, unit) outcome"
  next_function :: nat
  world :: 'x
  localStorage :: local_storage
  console :: "console_entry list"
  calls :: "(nat \<times> user js \<times> exn option) list"
  db_sync_started :: "string list"

text \<open>The module state when auth.js has just been loaded: \<open>let currentUser = null\<close>.\<close>

definition auth_loaded ::
  "(nat \<Rightarrow> user js \<Rightarrow> 'x \<Rightarrow> ('x, unit) outcome) \<Rightarrow> 'x \<Rightarrow> local_storage \<Rightarrow> 'x page" where
  "auth_loaded fns w ls =
     \<lparr>MLInterviewAuth = True, MLInterviewDB = False, currentUser = Null,
      authStateListeners = [], fn_objects = fns, next_function = 0, world = w,
      localStorage = ls, console = [], calls = [], db_sync_started = []\<rparr>"

definition session_key :: string where
  "session_key = ''mlinterviewpro_user_session''"

definition console_add :: "console_entry \<Rightarrow> 'x page \<Rightarrow> 'x page" where
  "console_add e s = s\<lparr>console := console s @ [e]\<rparr>"

section \<open>auth.js: the session cache\<close>

text \<open>
  \<open>JSON.stringify\<close>, \<open>JSON.parse\<close> and the clock of \<open>new Date().toISOString()\<close> are
  parameters. \<open>JSON.parse\<close> throws on a malformed text (\<open>Inl\<close>), and gives \<open>null\<close> or
  an object otherwise.
\<close>

definition sessionData :: "string \<Rightarrow> user \<Rightarrow> session_data" where
  "sessionData nowIso u =
     \<lparr>session_uid = uid u, session_email = email u, session_displayName = displayName u,
      session_photoURL = photoURL u, session_emailVerified = emailVerified u,
      session_providerId =
        (case providerData u of
           [] \<Rightarrow> ''unknown''
         | p # _ \<Rightarrow> (if providerId p = [] then ''unknown'' else providerId p)),
      session_lastLoginAt = nowIso\<rparr>"

definition storeUserSession ::
  "(session_data \<Rightarrow> string) \<Rightarrow> string \<Rightarrow> user \<Rightarrow> 'x page \<Rightarrow> ('x page, unit) outcome" where
  "storeUserSession stringify nowIso u s =
     (case setItem (localStorage s) session_key (stringify (sessionData nowIso u)) of
        Inl e \<Rightarrow> Returns (console_add (ErrorLog ''Error storing user session:'') s) ()
      | Inr ls' \<Rightarrow> Returns (s\<lparr>localStorage := ls'\<rparr>) ())"


definition getStoredUserSession ::
  "(string \<Rightarrow> exn + session_data js) \<Rightarrow> 'x page \<Rightarrow> ('x page, session_data js) outcome" where
  "getStoredUserSession parse s =
     (let stored = getItem (localStorage s) session_key
      in if truthy_str stored
         then (case parse (case stored of Some v \<Rightarrow> v | None \<Rightarrow> []) of
                 Inl e \<Rightarrow> Returns (console_add (ErrorLog ''Error retrieving user session:'') s) Null
               | Inr j \<Rightarrow> Returns s j)
         else Returns s Null)"

section \<open>auth.js: the auth state broadcaster\<close>

definition invoke :: "nat \<Rightarrow> user js \<Rightarrow> 'x page \<Rightarrow> ('x page, unit) outcome" where
  "invoke f u s =
     (case fn_objects s f u (world s) of
        Returns w _ \<Rightarrow> Returns (s\<lparr>world := w, calls := calls s @ [(f, u, None)]\<rparr>) ()
      | Throws w e \<Rightarrow> Throws (s\<lparr>world := w, calls := calls s @ [(f, u, Some e)]\<rparr>) e
      | Diverges \<Rightarrow> Diverges)"


text \<open>
  Sequencing: the rest runs only when the first part returns; a throw or a
  non-return of the first part is the result.
\<close>

definition and_then ::
  "('s, 'a) outcome \<Rightarrow> ('s \<Rightarrow> 'a \<Rightarrow> ('s, 'b) outcome) \<Rightarrow> ('s, 'b) outcome" where
  "and_then m k = (case m of Returns s v \<Rightarrow> k s v | Throws s e \<Rightarrow> Throws s e | Diverges \<Rightarrow> Diverges)"



text \<open>
  Read off the trace and the console: what was delivered to whom, how many listener
  calls threw, and how many listener failures the fan-out logged.
\<close>

definition delivered :: "'x page \<Rightarrow> (nat \<times> user js) list" where
  "delivered s = map (\<lambda>c. (fst c, fst (snd c))) (calls s)"



datatype fnref = Function nat | NotAFunction

datatype unsubscribe_handle = Unsubscribe nat

fun indexOf :: "'a list \<Rightarrow> 'a \<Rightarrow> int" where
  "indexOf [] x = - 1"
| "indexOf (y # ys) x =
     (if y = x then 0 else (let i = indexOf ys x in if i = - 1 then - 1 else i + 1))"

definition splice :: "'a list \<Rightarrow> nat \<Rightarrow> nat \<Rightarrow> 'a list" where
  "splice xs i n = take i xs @ drop (i + n) xs"

definition onAuthStateChanged ::
  "fnref \<Rightarrow> 'x page \<Rightarrow> ('x page, unsubscribe_handle) outcome" where
  "onAuthStateChanged callback s =
     (case callback of
        NotAFunction \<Rightarrow> Throws s (Error ''Callback must be a function'')
      | Function f \<Rightarrow>
          let s1 = s\<lparr>authStateListeners := authStateListeners s @ [f]\<rparr>
          in and_then
               (if currentUser s1 \<noteq> Undefined then invoke f (currentUser s1) s1
                else Returns s1 ())
               (\<lambda>s2 _. Returns s2 (Unsubscribe f)))"

fun call_unsubscribe :: "unsubscribe_handle \<Rightarrow> 'x page \<Rightarrow> 'x page" where
  "call_unsubscribe (Unsubscribe f) s =
     (let index = indexOf (authStateListeners s) f
      in if index > - 1
         then s\<lparr>authStateListeners := splice (authStateListeners s) (nat index) 1\<rparr>
         else s)"

definition getCurrentUser :: "'x page \<Rightarrow> user js" where
  "getCurrentUser s = currentUser s"

section \<open>auth-ui.js: the document\<close>

text \<open>
  The part of the DOM that the content gate touches. A node is an address; \<open>nodes\<close>
  gives each node's child list, its class, its inline style text, its
  \<open>style.position\<close>, its \<open>innerHTML\<close> text and the \<open>_authGate\<close> property that
  \<open>createContentGate\<close> hangs on a container (the overlay and the content wrapper).
  A node's parent is the node that lists it as a child, so removing a node from its
  parent removes it from every child list. \<open>createElement\<close> takes the next unused
  address. The markup of the overlay template is shortened to its three texts.
\<close>

record dom_node =
  children :: "nat list"
  className :: string
  cssText :: string
  position :: string
  innerHTML :: string
  authGate :: "(nat \<times> nat) option"

record document =
  nodes :: "nat \<Rightarrow> dom_node"
  next_node :: nat
  gate_styles :: bool
  location_href :: string
  modal_injected :: bool
  body_overflow :: string
  pending_message :: "string option"

definition detach :: "nat \<Rightarrow> document \<Rightarrow> document" where
  "detach x d = d\<lparr>nodes := (\<lambda>n. (nodes d n)\<lparr>children := removeAll x (children (nodes d n))\<rparr>)\<rparr>"

definition appendChild :: "nat \<Rightarrow> nat \<Rightarrow> document \<Rightarrow> document" where
  "appendChild p x d =
     (let d1 = detach x d
      in d1\<lparr>nodes := (nodes d1)(p := (nodes d1 p)\<lparr>children := children (nodes d1 p) @ [x]\<rparr>)\<rparr>)"





section \<open>auth-ui.js: content protection\<close>

text \<open>
  \<open>window.MLInterviewAuth?.getCurrentUser?.()\<close>: \<open>undefined\<close> when the auth module
  is not on the page.
\<close>

definition current_user_opt :: "'x page \<Rightarrow> user js" where
  "current_user_opt s = (if MLInterviewAuth s then getCurrentUser s else Undefined)"

record auth_options =
  showModal :: bool
  redirectTo :: "string option"
  message :: "string option"

definition default_auth_options :: auth_options where
  "default_auth_options = \<lparr>showModal = True, redirectTo = None, message = None\<rparr>"

text \<open>
  \<open>showLoginModal\<close> of auth-ui.js, which delegates to auth.js when that module is on
  the page (there it injects the modal and stops the body from scrolling) and logs an
  error otherwise.
\<close>

definition showLoginModal :: "document page \<Rightarrow> document page" where
  "showLoginModal s =
     (if MLInterviewAuth s
      then s\<lparr>world := (world s)\<lparr>modal_injected := True, body_overflow := ''hidden''\<rparr>\<rparr>
      else console_add (ErrorLog ''Auth module not loaded. Make sure auth.js is included before auth-ui.js'') s)"

definition requireAuth :: "auth_options \<Rightarrow> document page \<Rightarrow> (document page, bool) outcome" where
  "requireAuth options s =
     (if truthy (current_user_opt s) then Returns s True
      else if truthy_str (redirectTo options)
      then Returns (s\<lparr>world := (world s)\<lparr>location_href :=
                      (case redirectTo options of Some r \<Rightarrow> r | None \<Rightarrow> [])\<rparr>\<rparr>) False
      else if showModal options
      then (let s1 = showLoginModal s
            in Returns (if truthy_str (message options) \<and> MLInterviewAuth s1
                        then s1\<lparr>world := (world s1)\<lparr>pending_message := message options\<rparr>\<rparr>
                        else s1) False)
      else Returns s False)"










section \<open>Example states\<close>


definition example_page :: "unit page" where
  "example_page = auth_loaded (\<lambda>f u w. Returns w ()) () \<lparr>entries = [], quota = 100\<rparr>"

definition example_user :: user where
  "example_user =
     \<lparr>uid = ''u1'', email = Some ''a@b.c'', displayName = Some ''Ann'', photoURL = None,
      emailVerified = True, providerData = [\<lparr>providerId = ''google.com''\<rparr>]\<rparr>"

definition subscribed_once :: "unit page" where
  "subscribed_once = example_page\<lparr>authStateListeners := [7], calls := [(7, Null, None)]\<rparr>"

definition subscribed_twice :: "unit page" where
  "subscribed_twice =
     example_page\<lparr>authStateListeners := [7, 7], calls := [(7, Null, None), (7, Null, None)]\<rparr>"

definition example_stringify :: "session_data \<Rightarrow> string" where
  "example_stringify d = ''{uid:'' @ session_uid d @ '',at:'' @ session_lastLoginAt d @ ''}''"

definition old_session :: session_data where
  "old_session =
     \<lparr>session_uid = ''u1'', session_email = Some ''a@b.c'', session_displayName = Some ''Ann'',
      session_photoURL = None, session_emailVerified = True,
      session_providerId = ''google.com'', session_lastLoginAt = ''1''\<rparr>"

definition example_parse :: "string \<Rightarrow> exn + session_data js" where
  "example_parse t =
     (if t = ''null'' then Inr Null
      else if t = ''{uid:u1,at:1}'' then Inr (Obj old_session)
      else Inl SyntaxError)"

definition stale_page :: "unit page" where
  "stale_page =
     example_page\<lparr>localStorage :=
       \<lparr>entries = [(session_key, ''{uid:u1,at:1}'')], quota = 40\<rparr>\<rparr>"


definition full_page :: "unit page" where
  "full_page = example_page\<lparr>localStorage := \<lparr>entries = [(''progress_lc_1'', ''solved'')], quota = 25\<rparr>\<rparr>"

definition example_local :: local_storage where
  "example_local = \<lparr>entries = [(''progress_lc_1'', ''working'')], quota = 100\<rparr>"

definition solved_store :: firestore where
  "solved_store =
     \<lparr>users = [(''u1'', \<lparr>totalLogins = 1,
                  stats = \<lparr>problemsSolved = 1, problemsAccessed = 1, totalTimeSpent = 0,
                           lastActivityAt = 3\<rparr>\<rparr>)],
      progress = [((''u1'', ''lc_1''),
                  \<lparr>problemId = ''lc_1'', category = ''LeetCode'', status = ''solved'',
                   firstAccessedAt = 2, lastUpdatedAt = 3, solvedAt = Some 3,
                   timeSpent = 10, viewCount = 1\<rparr>)],
      clock = 4\<rparr>"

definition after_first_sync :: firestore where
  "after_first_sync =
     solved_store\<lparr>progress := [((''u1'', ''lc_1''),
                  \<lparr>problemId = ''lc_1'', category = ''LeetCode'', status = ''working'',
                   firstAccessedAt = 2, lastUpdatedAt = 4, solvedAt = Some 3,
                   timeSpent = 10, viewCount = 1\<rparr>)], clock := 5\<rparr>"

definition after_second_sync :: firestore where
  "after_second_sync =
     solved_store\<lparr>progress := [((''u1'', ''lc_1''),
                  \<lparr>problemId = ''lc_1'', category = ''LeetCode'', status = ''working'',
                   firstAccessedAt = 2, lastUpdatedAt = 5, solvedAt = Some 3,
                   timeSpent = 10, viewCount = 1\<rparr>)], clock := 6\<rparr>"



section \<open>Properties of database.js: user statistics and time tracking\<close>

lemma updateUserStats_progress:
  "updateUserStats (Some fs) u a = (db', b) \<Longrightarrow> \<exists>fs'. db' = Some fs' \<and> progress fs' = progress fs"
  by (auto simp: updateUserStats_def userRef_update_def split: if_splits option.splits sum.splits)

lemma updateUserStats_Some:
  "\<exists>fs'. fst (updateUserStats (Some fs) u a) = Some fs' \<and> progress fs' = progress fs"
  using updateUserStats_progress [of fs u a] by (cases "updateUserStats (Some fs) u a") auto














section \<open>Properties of auth.js: subscribing and unsubscribing\<close>

text \<open>
  C2. At module load \<open>currentUser\<close> is \<open>null\<close>, not \<open>undefined\<close>, so the test
  \<open>currentUser !== undefined\<close> holds before any identity has been confirmed: a
  callback registered on the freshly loaded module is called at once, with \<open>null\<close>.
\<close>

theorem onAuthStateChanged_calls_back_before_confirmation:
  "currentUser example_page = Null \<and> calls example_page = [] \<and>
   onAuthStateChanged (Function 7) example_page = Returns subscribed_once (Unsubscribe 7) \<and>
   delivered subscribed_once = [(7, Null)]"
  by (simp add: onAuthStateChanged_def example_page_def auth_loaded_def subscribed_once_def
      and_then_def invoke_def delivered_def)

lemma indexOf_notin: "x \<notin> set xs \<Longrightarrow> indexOf xs x = - 1"
  by (induction xs) auto

lemma indexOf_in: "x \<in> set xs \<Longrightarrow> 0 \<le> indexOf xs x"
  by (induction xs) (auto simp: Let_def)

lemma splice_indexOf: "x \<in> set xs \<Longrightarrow> splice xs (nat (indexOf xs x)) 1 = remove1 x xs"
proof (induction xs)
  case Nil
  then show ?case by simp
next
  case (Cons y ys)
  show ?case
  proof (cases "y = x")
    case True
    then show ?thesis by (simp add: splice_def)
  next
    case False
    with Cons.prems have in_ys: "x \<in> set ys" by simp
    from indexOf_in [OF in_ys] have nn: "0 \<le> indexOf ys x" .
    then have "nat (indexOf ys x + 1) = Suc (nat (indexOf ys x))" by simp
    with False nn Cons.IH [OF in_ys] show ?thesis
      by (simp add: splice_def Let_def)
  qed
qed

lemma call_unsubscribe_remove1:
  "call_unsubscribe (Unsubscribe f) s = s\<lparr>authStateListeners := remove1 f (authStateListeners s)\<rparr>"
proof (cases "f \<in> set (authStateListeners s)")
  case True
  with indexOf_in [OF True] splice_indexOf [OF True] show ?thesis by (simp add: Let_def)
next
  case False
  with indexOf_notin [OF False] show ?thesis by (simp add: Let_def remove1_idem)
qed

lemma remove1_eq_iff: "remove1 x ys = ys \<longleftrightarrow> x \<notin> set ys"
proof
  assume eq: "remove1 x ys = ys"
  show "x \<notin> set ys"
  proof
    assume "x \<in> set ys"
    then have "length (remove1 x ys) < length ys"
      using length_pos_if_in_set [of x ys] by (simp add: length_remove1)
    with eq show False by simp
  qed
next
  assume "x \<notin> set ys"
  then show "remove1 x ys = ys" by (rule remove1_idem)
qed

lemma remove1_twice: "remove1 x (remove1 x xs) = remove1 x xs \<longleftrightarrow> count_list xs x \<le> 1"
proof (induction xs)
  case Nil
  then show ?case by simp
next
  case (Cons y ys)
  show ?case
  proof (cases "y = x")
    case True
    with remove1_eq_iff [of x ys] show ?thesis by (simp add: count_list_0_iff)
  next
    case False
    with Cons.IH show ?thesis by simp
  qed
qed

lemma page_listeners_eq:
  "(s\<lparr>authStateListeners := xs\<rparr> = s\<lparr>authStateListeners := ys\<rparr>) = (xs = ys)"
  by (cases s) simp

text \<open>
  C8, as the code has it. The handle that \<open>onAuthStateChanged\<close> returns for a callback
  removes the earliest registration of that callback still in the list, and nothing
  if there is none. Calling it a second time changes nothing exactly when the callback
  was registered at most once when the handle was first called; a callback registered
  more than once loses another registration with each further call.
\<close>

theorem unsubscribe_removes_earliest_registration:
  "(\<forall>s' h. onAuthStateChanged (Function f) s0 = Returns s' h \<longrightarrow> h = Unsubscribe f) \<and>
   call_unsubscribe (Unsubscribe f) s = s\<lparr>authStateListeners := remove1 f (authStateListeners s)\<rparr> \<and>
   (call_unsubscribe (Unsubscribe f) (call_unsubscribe (Unsubscribe f) s)
      = call_unsubscribe (Unsubscribe f) s
    \<longleftrightarrow> count_list (authStateListeners s) f \<le> 1)"
proof -
  have a: "\<forall>s' h. onAuthStateChanged (Function f) s0 = Returns s' h \<longrightarrow> h = Unsubscribe f"
    by (auto simp: onAuthStateChanged_def and_then_def Let_def split: outcome.splits if_splits)
  have b: "call_unsubscribe (Unsubscribe f) (call_unsubscribe (Unsubscribe f) s)
             = s\<lparr>authStateListeners := remove1 f (remove1 f (authStateListeners s))\<rparr>"
    by (simp add: call_unsubscribe_remove1 del: call_unsubscribe.simps)
  show ?thesis
    using a b remove1_twice [of f "authStateListeners s"]
    by (simp add: call_unsubscribe_remove1 page_listeners_eq del: call_unsubscribe.simps)
qed

theorem unsubscribe_removes_earliest_registration_witness:
  "onAuthStateChanged (Function 7) example_page = Returns subscribed_once (Unsubscribe 7) \<and>
   count_list (authStateListeners subscribed_once) 7 \<le> 1 \<and>
   call_unsubscribe (Unsubscribe 7) (call_unsubscribe (Unsubscribe 7) subscribed_once)
     = call_unsubscribe (Unsubscribe 7) subscribed_once \<and>
   authStateListeners (call_unsubscribe (Unsubscribe 7) subscribed_once) = []"
proof -
  have r: "onAuthStateChanged (Function 7) example_page = Returns subscribed_once (Unsubscribe 7)"
    by (simp add: onAuthStateChanged_def example_page_def auth_loaded_def subscribed_once_def
        and_then_def invoke_def)
  have h: "count_list (authStateListeners subscribed_once) 7 \<le> 1"
    by (simp add: subscribed_once_def)
  from unsubscribe_removes_earliest_registration [of 7 example_page subscribed_once] h
  have "call_unsubscribe (Unsubscribe 7) (call_unsubscribe (Unsubscribe 7) subscribed_once)
     = call_unsubscribe (Unsubscribe 7) subscribed_once"
    by blast
  moreover from unsubscribe_removes_earliest_registration [of 7 example_page subscribed_once]
  have "authStateListeners (call_unsubscribe (Unsubscribe 7) subscribed_once) = []"
    by (simp add: subscribed_once_def)
  ultimately show ?thesis using r h by blast
qed

theorem unsubscribe_twice_counterexample:
  "onAuthStateChanged (Function 7) example_page = Returns subscribed_once (Unsubscribe 7) \<and>
   onAuthStateChanged (Function 7) subscribed_once = Returns subscribed_twice (Unsubscribe 7) \<and>
   authStateListeners (call_unsubscribe (Unsubscribe 7) subscribed_twice) = [7] \<and>
   authStateListeners (call_unsubscribe (Unsubscribe 7)
      (call_unsubscribe (Unsubscribe 7) subscribed_twice)) = [] \<and>
   call_unsubscribe (Unsubscribe 7) (call_unsubscribe (Unsubscribe 7) subscribed_twice)
     \<noteq> call_unsubscribe (Unsubscribe 7) subscribed_twice"
proof -
  have 1: "onAuthStateChanged (Function 7) example_page = Returns subscribed_once (Unsubscribe 7)"
    by (simp add: onAuthStateChanged_def example_page_def auth_loaded_def subscribed_once_def
      and_then_def invoke_def)
  have 2: "onAuthStateChanged (Function 7) subscribed_once = Returns subscribed_twice (Unsubscribe 7)"
    by (simp add: onAuthStateChanged_def example_page_def auth_loaded_def subscribed_once_def
      subscribed_twice_def and_then_def invoke_def)
  have 3: "authStateListeners (call_unsubscribe (Unsubscribe 7) subscribed_twice) = [7]"
    by (simp add: subscribed_twice_def splice_def)
  have 4: "authStateListeners (call_unsubscribe (Unsubscribe 7)
      (call_unsubscribe (Unsubscribe 7) subscribed_twice)) = []"
    by (simp add: subscribed_twice_def splice_def)
  from 3 4 have 5: "call_unsubscribe (Unsubscribe 7) (call_unsubscribe (Unsubscribe 7) subscribed_twice)
     \<noteq> call_unsubscribe (Unsubscribe 7) subscribed_twice"
    by (metis list.distinct(1))
  from 1 2 3 4 5 show ?thesis by blast
qed

section \<open>Properties of auth.js: the fan-out\<close>









section \<open>Properties of auth.js: the session cache\<close>

lemma storeUserSession_failed:
  assumes "setItem (localStorage s) session_key (stringify (sessionData nowIso u)) = Inl e"
  shows "storeUserSession stringify nowIso u s =
           Returns (console_add (ErrorLog ''Error storing user session:'') s) ()"
  using assms by (simp add: storeUserSession_def)

lemma getStoredUserSession_console:
  "returned_value (getStoredUserSession parse (console_add e s))
     = returned_value (getStoredUserSession parse s)"
proof -
  have ls: "localStorage (console_add e s) = localStorage s" by (simp add: console_add_def)
  show ?thesis
  proof (cases "truthy_str (getItem (localStorage s) session_key)")
    case False
    with ls show ?thesis by (simp add: getStoredUserSession_def)
  next
    case True
    show ?thesis
    proof (cases "parse (case getItem (localStorage s) session_key of Some v \<Rightarrow> v | None \<Rightarrow> [])")
      case (Inl x)
      with True ls show ?thesis by (simp add: getStoredUserSession_def)
    next
      case (Inr j)
      with True ls show ?thesis by (simp add: getStoredUserSession_def)
    qed
  qed
qed

lemma getStoredUserSession_empty:
  "getItem (localStorage s) session_key = None \<Longrightarrow> getStoredUserSession parse s = Returns s Null"
  by (simp add: getStoredUserSession_def truthy_str_def)

text \<open>
  C6, as the code has it. When the write to local storage fails, \<open>storeUserSession\<close>
  returns all the same: it logs the failure and leaves the storage as it was. A read
  of the session afterwards gives what it gave before the write: absent when no entry
  was stored, and otherwise the entry stored earlier.
\<close>

theorem failed_session_write_is_swallowed:
  assumes "setItem (localStorage s) session_key (stringify (sessionData nowIso u)) = Inl e"
  shows "\<exists>s'. storeUserSession stringify nowIso u s = Returns s' () \<and>
           localStorage s' = localStorage s \<and>
           console s' = console s @ [ErrorLog ''Error storing user session:''] \<and>
           returned_value (getStoredUserSession parse s') = returned_value (getStoredUserSession parse s) \<and>
           (getItem (localStorage s) session_key = None \<longrightarrow>
              getStoredUserSession parse s' = Returns s' Null)"
proof (intro exI conjI)
  let ?s' = "console_add (ErrorLog ''Error storing user session:'') s"
  show "storeUserSession stringify nowIso u s = Returns ?s' ()"
    using assms by (rule storeUserSession_failed)
  show "localStorage ?s' = localStorage s"
    by (simp add: console_add_def)
  show "console ?s' = console s @ [ErrorLog ''Error storing user session:'']"
    by (simp add: console_add_def)
  show "returned_value (getStoredUserSession parse ?s')
                   = returned_value (getStoredUserSession parse s)"
    by (rule getStoredUserSession_console)
  show "getItem (localStorage s) session_key = None \<longrightarrow>
              getStoredUserSession parse ?s' = Returns ?s' Null"
    using getStoredUserSession_empty [of ?s' parse] by (simp add: console_add_def)
qed

theorem failed_session_write_is_swallowed_witness:
  "setItem (localStorage full_page) session_key (example_stringify (sessionData ''2'' example_user))
     = Inl QuotaExceededError \<and>
   getItem (localStorage full_page) session_key = None \<and>
   storeUserSession example_stringify ''2'' example_user full_page
     = Returns (console_add (ErrorLog ''Error storing user session:'') full_page) () \<and>
   getStoredUserSession example_parse (console_add (ErrorLog ''Error storing user session:'') full_page)
     = Returns (console_add (ErrorLog ''Error storing user session:'') full_page) Null"
proof -
  have h: "setItem (localStorage full_page) session_key (example_stringify (sessionData ''2'' example_user))
     = Inl QuotaExceededError"
    by (simp add: full_page_def setItem_def session_key_def example_stringify_def sessionData_def
        example_user_def storage_size_def)
  have n: "getItem (localStorage full_page) session_key = None"
    by (simp add: full_page_def getItem_def session_key_def)
  from failed_session_write_is_swallowed [of full_page example_stringify "''2''" example_user QuotaExceededError example_parse] h n
  show ?thesis by (auto simp: storeUserSession_def)
qed

theorem failed_session_write_counterexample:
  "setItem (localStorage stale_page) session_key (example_stringify (sessionData ''22'' example_user))
     = Inl QuotaExceededError \<and>
   storeUserSession example_stringify ''22'' example_user stale_page
     = Returns (console_add (ErrorLog ''Error storing user session:'') stale_page) () \<and>
   getStoredUserSession example_parse (console_add (ErrorLog ''Error storing user session:'') stale_page)
     = Returns (console_add (ErrorLog ''Error storing user session:'') stale_page) (Obj old_session) \<and>
   Obj old_session \<noteq> (Null :: session_data js)"
  by (simp add: stale_page_def setItem_def session_key_def example_stringify_def sessionData_def
        example_user_def storage_size_def storeUserSession_def getStoredUserSession_def
        getItem_def truthy_str_def example_parse_def console_add_def)


section \<open>Properties of auth-ui.js: \<open>requireAuth\<close>\<close>

text \<open>
  C5. In every state of the page, with the auth module missing, loaded but not yet
  confirmed, or confirmed, \<open>requireAuth\<close> returns, and its result is true exactly
  when the auth module is on the page and its current user is present.
\<close>

theorem requireAuth_true_iff_signed_in:
  "\<exists>s'. requireAuth options s = Returns s' (MLInterviewAuth s \<and> truthy (currentUser s))"
  by (auto simp: requireAuth_def current_user_opt_def getCurrentUser_def Let_def)

section \<open>Properties of database.js: reconciliation\<close>

lemma replace_first_prefix: "prefix p s \<Longrightarrow> replace_first p r s = r @ drop (length p) s"
  by (cases s) auto

lemma problem_of_key_append [simp]: "problem_of_key (''progress_'' @ p) = p"
  unfolding problem_of_key_def by (subst replace_first_prefix) simp_all

lemmas problem_of_key_cons [simp] = problem_of_key_append [simplified]

lemma key_of_problem: "prefix ''progress_'' k \<Longrightarrow> ''progress_'' @ problem_of_key k = k"
  unfolding problem_of_key_def by (auto simp: replace_first_prefix prefix_def)

lemma updateProblemProgress_effect:
  assumes "u \<noteq> []" "p \<noteq> []"
  shows "\<exists>fs' d'. updateProblemProgress (Some fs) u p st = (Some fs', True) \<and>
           progress fs' = AList.update (u, p) d' (progress fs) \<and> status d' = st \<and>
           problemId d' = (case progressRef_get fs u p of Some d \<Rightarrow> problemId d | None \<Rightarrow> p)"
proof (cases "progressRef_get fs u p")
  case None
  let ?fs1 = "progressRef_set fs u p (new_progress p st)"
  obtain fs2 where fs2: "fst (updateUserStats (Some ?fs1) u
        \<lparr>inc_problemsSolved = (if st = ''solved'' then 1 else 0),
         inc_problemsAccessed = 1, inc_totalTimeSpent = 0\<rparr>) = Some fs2"
      "progress fs2 = progress ?fs1"
    using updateUserStats_Some by blast
  have "updateProblemProgress (Some fs) u p st = (Some fs2, True)"
    using assms None fs2 by (simp add: updateProblemProgress_def Let_def)
  moreover have "progress fs2 = AList.update (u, p) (new_progress p st (clock fs)) (progress fs)"
    using fs2 by (simp add: progressRef_set_def)
  ultimately show ?thesis using None by (auto simp: new_progress_def)
next
  case (Some data)
  let ?ns = "st = ''solved'' \<and> status data \<noteq> ''solved''"
  obtain fs1 where fs1: "(if ?ns then fst (updateUserStats (Some fs) u
        \<lparr>inc_problemsSolved = 1, inc_problemsAccessed = 0, inc_totalTimeSpent = 0\<rparr>)
        else Some fs) = Some fs1" "progress fs1 = progress fs"
    using updateUserStats_Some [of fs u] by (cases ?ns) auto
  have g1: "progressRef_get fs1 u p = Some data"
    using Some fs1 by (simp add: progressRef_get_def)
  let ?d' = "progress_updates st ?ns (clock fs1) data"
  let ?fs2 = "fs1\<lparr>progress := AList.update (u, p) ?d' (progress fs1), clock := Suc (clock fs1)\<rparr>"
  have "updateProblemProgress (Some fs) u p st = (Some ?fs2, True)"
    using assms Some fs1 g1
    by (simp add: updateProblemProgress_def Let_def progressRef_update_def)
  moreover have "progress ?fs2 = AList.update (u, p) ?d' (progress fs)"
    using fs1 by simp
  moreover have "status ?d' = st" "problemId ?d' = problemId data"
    by (simp_all add: progress_updates_def)
  ultimately show ?thesis using Some by auto
qed

lemma updateProblemProgress_same_status:
  assumes "progressRef_get fs u p = Some data" "u \<noteq> []" "p \<noteq> []" "status data = st"
  shows "updateProblemProgress (Some fs) u p st =
           (Some (fs\<lparr>progress := AList.update (u, p)
                       (data\<lparr>lastUpdatedAt := clock fs\<rparr>) (progress fs),
                     clock := Suc (clock fs)\<rparr>), True)"
proof -
  have "data\<lparr>status := st, lastUpdatedAt := clock fs\<rparr> = data\<lparr>lastUpdatedAt := clock fs\<rparr>"
    using assms(4) by (cases data) simp
  with assms show ?thesis
    by (auto simp add: updateProblemProgress_def progressRef_update_def progress_updates_def)
qed

lemma set_update_subset: "set (AList.update k v al) \<subseteq> insert (k, v) (set al)"
  by (induction al) auto

lemma wf_store_update:
  assumes "wf_store fs" "progress fs' = AList.update (u, p) d' (progress fs)" "problemId d' = p"
  shows "wf_store fs'"
  using assms set_update_subset [of "(u, p)" d' "progress fs"]
  by (auto simp: wf_store_def distinct_update)

lemma updateProblemProgress_wf:
  assumes "u \<noteq> []" "p \<noteq> []" "wf_store fs" "updateProblemProgress (Some fs) u p st = (Some fs', b)"
  shows "wf_store fs'"
proof -
  from updateProblemProgress_effect [OF assms(1,2), of fs st] assms(4)
  obtain d' where d': "progress fs' = AList.update (u, p) d' (progress fs)"
    "problemId d' = (case progressRef_get fs u p of Some d \<Rightarrow> problemId d | None \<Rightarrow> p)"
    by auto
  have "problemId d' = p"
  proof (cases "progressRef_get fs u p")
    case None
    with d' show ?thesis by simp
  next
    case (Some d)
    then have "((u, p), d) \<in> set (progress fs)"
      by (simp add: progressRef_get_def map_of_SomeD)
    with assms(3) have "problemId d = p" by (auto simp: wf_store_def)
    with d' Some show ?thesis by simp
  qed
  with assms(3) d'(1) show ?thesis by (rule wf_store_update)
qed

lemma push_step_cases:
  assumes "u \<noteq> []" "fst acc = Some fs"
  shows "(\<not> (truthy_str (getItem ls k) \<and> problem_of_key k \<noteq> []) \<and> push_step ls u acc k = acc) \<or>
         (\<exists>st fs' d'. getItem ls k = Some st \<and> st \<noteq> [] \<and> problem_of_key k \<noteq> [] \<and>
             fst (push_step ls u acc k) = Some fs' \<and>
             updateProblemProgress (Some fs) u (problem_of_key k) st = (Some fs', True) \<and>
             progress fs' = AList.update (u, problem_of_key k) d' (progress fs) \<and> status d' = st)"
proof (cases "truthy_str (getItem ls k) \<and> problem_of_key k \<noteq> []")
  case False
  then show ?thesis by (auto simp: push_step_def problem_of_key_def Let_def)
next
  case True
  then obtain st where st: "getItem ls k = Some st" "st \<noteq> []"
    by (auto simp: truthy_str_def split: option.splits)
  from True have p: "problem_of_key k \<noteq> []" by simp
  from updateProblemProgress_effect [OF assms(1) p, of fs st]
  obtain fs' d' where e: "updateProblemProgress (Some fs) u (problem_of_key k) st = (Some fs', True)"
    "progress fs' = AList.update (u, problem_of_key k) d' (progress fs)" "status d' = st"
    by blast
  have "fst (push_step ls u acc k) = Some fs'"
    using True st e(1) assms(2) by (simp add: push_step_def problem_of_key_def Let_def)
  with st p e show ?thesis by blast
qed

lemma push_frame:
  assumes "u \<noteq> []" "fst acc = Some fs"
  shows "\<exists>fs'. fst (foldl (push_step ls u) acc ks) = Some fs' \<and>
           (wf_store fs \<longrightarrow> wf_store fs') \<and>
           (\<forall>key. key \<notin> (\<lambda>k. (u, problem_of_key k)) ` set ks \<longrightarrow>
                  map_of (progress fs') key = map_of (progress fs) key)"
  using assms(2)
proof (induction ks arbitrary: acc fs)
  case Nil
  then show ?case by simp
next
  case (Cons k ks)
  from push_step_cases [OF assms(1) Cons.prems, of ls k]
  show ?case
  proof (elim disjE conjE exE)
    assume "push_step ls u acc k = acc"
    with Cons.IH [OF Cons.prems] show ?thesis by auto
  next
    fix st fs1 d'
    assume a: "fst (push_step ls u acc k) = Some fs1"
      "updateProblemProgress (Some fs) u (problem_of_key k) st = (Some fs1, True)"
      "progress fs1 = AList.update (u, problem_of_key k) d' (progress fs)"
      "problem_of_key k \<noteq> []"
    from Cons.IH [OF a(1)] obtain fs' where fs':
      "fst (foldl (push_step ls u) (push_step ls u acc k) ks) = Some fs'"
      "wf_store fs1 \<longrightarrow> wf_store fs'"
      "\<forall>key. key \<notin> (\<lambda>k. (u, problem_of_key k)) ` set ks \<longrightarrow>
                  map_of (progress fs') key = map_of (progress fs1) key"
      by blast
    have wf: "wf_store fs \<longrightarrow> wf_store fs1"
      using updateProblemProgress_wf [OF assms(1) a(4) _ a(2)] by blast
    have other: "\<forall>key. key \<noteq> (u, problem_of_key k) \<longrightarrow>
                  map_of (progress fs1) key = map_of (progress fs) key"
      using a(3) by (simp add: update_conv')
    from fs' wf other show ?thesis by auto
  qed
qed

lemma problem_of_key_inj:
  assumes "prefix ''progress_'' k" "prefix ''progress_'' k'" "problem_of_key k = problem_of_key k'"
  shows "k = k'"
  using key_of_problem [OF assms(1)] key_of_problem [OF assms(2)] assms(3) by simp

lemma push_sets_status:
  assumes "u \<noteq> []" "fst acc = Some fs" "distinct ks" "\<forall>k \<in> set ks. prefix ''progress_'' k"
  shows "\<exists>fs'. fst (foldl (push_step ls u) acc ks) = Some fs' \<and>
           (\<forall>k \<in> set ks. \<forall>st. getItem ls k = Some st \<and> st \<noteq> [] \<and> problem_of_key k \<noteq> [] \<longrightarrow>
              (\<exists>d. map_of (progress fs') (u, problem_of_key k) = Some d \<and> status d = st))"
  using assms(2-4)
proof (induction ks arbitrary: acc fs)
  case Nil
  then show ?case by simp
next
  case (Cons k ks)
  from Cons.prems have dist: "distinct ks" "k \<notin> set ks"
    and pre: "\<forall>k \<in> set ks. prefix ''progress_'' k" "prefix ''progress_'' k" by auto
  have notin: "(u, problem_of_key k) \<notin> (\<lambda>k. (u, problem_of_key k)) ` set ks"
  proof
    assume "(u, problem_of_key k) \<in> (\<lambda>k. (u, problem_of_key k)) ` set ks"
    then obtain k' where k': "k' \<in> set ks" "problem_of_key k = problem_of_key k'" by auto
    from k'(1) pre(1) have "prefix ''progress_'' k'" by simp
    from problem_of_key_inj [OF pre(2) this k'(2)] k'(1) dist(2) show False by simp
  qed
  from push_step_cases [OF assms(1) Cons.prems(1), of ls k]
  show ?case
  proof (elim disjE conjE exE)
    assume skip: "\<not> (truthy_str (getItem ls k) \<and> problem_of_key k \<noteq> [])"
      "push_step ls u acc k = acc"
    from Cons.IH [OF _ dist(1) pre(1), of acc fs] Cons.prems(1) skip(2)
    obtain fs' where fs': "fst (foldl (push_step ls u) (push_step ls u acc k) ks) = Some fs'"
      "\<forall>k \<in> set ks. \<forall>st. getItem ls k = Some st \<and> st \<noteq> [] \<and> problem_of_key k \<noteq> [] \<longrightarrow>
              (\<exists>d. map_of (progress fs') (u, problem_of_key k) = Some d \<and> status d = st)"
      by auto
    from skip(1) have nok: "\<forall>st. \<not> (getItem ls k = Some st \<and> st \<noteq> [] \<and> problem_of_key k \<noteq> [])"
      by (auto simp: truthy_str_def)
    have "\<forall>k' \<in> set (k # ks). \<forall>st. getItem ls k' = Some st \<and> st \<noteq> [] \<and> problem_of_key k' \<noteq> [] \<longrightarrow>
              (\<exists>d. map_of (progress fs') (u, problem_of_key k') = Some d \<and> status d = st)"
      using nok fs'(2) by simp blast
    with fs'(1) show ?thesis by simp
  next
    fix st fs1 d'
    assume a: "getItem ls k = Some st" "fst (push_step ls u acc k) = Some fs1"
      "progress fs1 = AList.update (u, problem_of_key k) d' (progress fs)" "status d' = st"
    from Cons.IH [OF a(2) dist(1) pre(1)]
    obtain fs' where fs': "fst (foldl (push_step ls u) (push_step ls u acc k) ks) = Some fs'"
      "\<forall>k \<in> set ks. \<forall>st. getItem ls k = Some st \<and> st \<noteq> [] \<and> problem_of_key k \<noteq> [] \<longrightarrow>
              (\<exists>d. map_of (progress fs') (u, problem_of_key k) = Some d \<and> status d = st)"
      by blast
    from push_frame [OF assms(1) a(2), of ls ks] fs'(1) notin
    have "map_of (progress fs') (u, problem_of_key k) = map_of (progress fs1) (u, problem_of_key k)"
      by auto
    also have "\<dots> = Some d'" using a(3) by (simp add: update_conv')
    finally have here: "map_of (progress fs') (u, problem_of_key k) = Some d'" .
    have "\<forall>k' \<in> set (k # ks). \<forall>st. getItem ls k' = Some st \<and> st \<noteq> [] \<and> problem_of_key k' \<noteq> [] \<longrightarrow>
              (\<exists>d. map_of (progress fs') (u, problem_of_key k') = Some d \<and> status d = st)"
      using here a(1,4) fs'(2) by auto
    with fs'(1) show ?thesis by simp
  qed
qed

lemma ledger_view_update:
  assumes "map_of al k = Some d" "forget_updated d' = forget_updated d"
  shows "map (\<lambda>kd. (fst kd, forget_updated (snd kd))) (AList.update k d' al)
           = map (\<lambda>kd. (fst kd, forget_updated (snd kd))) al"
  using assms by (induction al) (auto split: if_splits)

lemma push_noop:
  assumes "u \<noteq> []" "fst acc = Some fs"
    and "\<forall>k \<in> set ks. \<forall>st. getItem ls k = Some st \<and> st \<noteq> [] \<and> problem_of_key k \<noteq> [] \<longrightarrow>
              (\<exists>d. map_of (progress fs) (u, problem_of_key k) = Some d \<and> status d = st)"
  shows "\<exists>fs'. fst (foldl (push_step ls u) acc ks) = Some fs' \<and>
           users fs' = users fs \<and> ledger_view fs' = ledger_view fs"
  using assms(2,3)
proof (induction ks arbitrary: acc fs)
  case Nil
  then show ?case by simp
next
  case (Cons k ks)
  from push_step_cases [OF assms(1) Cons.prems(1), of ls k]
  show ?case
  proof (elim disjE conjE exE)
    assume "push_step ls u acc k = acc"
    with Cons.IH [OF Cons.prems(1)] Cons.prems(2) show ?thesis by auto
  next
    fix st fs1 d'
    assume a: "getItem ls k = Some st" "st \<noteq> []" "problem_of_key k \<noteq> []"
      "fst (push_step ls u acc k) = Some fs1"
      "updateProblemProgress (Some fs) u (problem_of_key k) st = (Some fs1, True)"
    from Cons.prems(2)
    have "getItem ls k = Some st \<and> st \<noteq> [] \<and> problem_of_key k \<noteq> [] \<longrightarrow>
              (\<exists>d. map_of (progress fs) (u, problem_of_key k) = Some d \<and> status d = st)"
      by simp
    with a(1-3) obtain d where d:
      "map_of (progress fs) (u, problem_of_key k) = Some d" "status d = st"
      by blast
    from updateProblemProgress_same_status [OF _ assms(1) a(3) d(2), of fs] d(1) a(5)
    have fs1: "fs1 = fs\<lparr>progress := AList.update (u, problem_of_key k)
                       (d\<lparr>lastUpdatedAt := clock fs\<rparr>) (progress fs),
                     clock := Suc (clock fs)\<rparr>"
      by (simp add: progressRef_get_def)
    have same: "users fs1 = users fs" "ledger_view fs1 = ledger_view fs"
      using fs1 ledger_view_update [OF d(1), of "d\<lparr>lastUpdatedAt := clock fs\<rparr>"]
      by (simp_all add: ledger_view_def forget_updated_def)
    have inv: "\<forall>k \<in> set ks. \<forall>st. getItem ls k = Some st \<and> st \<noteq> [] \<and> problem_of_key k \<noteq> [] \<longrightarrow>
              (\<exists>d. map_of (progress fs1) (u, problem_of_key k) = Some d \<and> status d = st)"
    proof (intro ballI allI impI)
      fix k' st'
      assume k': "k' \<in> set ks"
        "getItem ls k' = Some st' \<and> st' \<noteq> [] \<and> problem_of_key k' \<noteq> []"
      from Cons.prems(2) k'(1)
      have "getItem ls k' = Some st' \<and> st' \<noteq> [] \<and> problem_of_key k' \<noteq> [] \<longrightarrow>
              (\<exists>d. map_of (progress fs) (u, problem_of_key k') = Some d \<and> status d = st')"
        by simp
      with k'(2) obtain d0 where d0:
        "map_of (progress fs) (u, problem_of_key k') = Some d0" "status d0 = st'"
        by blast
      show "\<exists>d. map_of (progress fs1) (u, problem_of_key k') = Some d \<and> status d = st'"
      proof (cases "problem_of_key k' = problem_of_key k")
        case True
        with d d0 fs1 show ?thesis by (simp add: update_conv')
      next
        case False
        with d0 fs1 show ?thesis by (simp add: update_conv')
      qed
    qed
    from Cons.IH [OF a(4) inv] same show ?thesis by auto
  qed
qed

lemma setItem_Inr:
  assumes "setItem ls k v = Inr ls'"
  shows "entries ls' = AList.update k v (entries ls)" "quota ls' = quota ls"
    "storage_size (entries ls') \<le> quota ls'"
  using assms by (auto simp: setItem_def Let_def split: if_splits)

lemma setItem_same:
  assumes "getItem ls k = Some v" "storage_size (entries ls) \<le> quota ls"
  shows "setItem ls k v = Inr ls"
  using assms update_triv [of "entries ls" k v]
  by (simp add: setItem_def getItem_def Let_def)


lemma pull_complete:
  assumes "pull_items items ls n = (ls', n + length items)"
    and "distinct (map (\<lambda>i. problemId (snd i)) items)"
  shows "(\<forall>i \<in> set items. getItem ls' (''progress_'' @ problemId (snd i)) = Some (status (snd i))) \<and>
         (\<forall>k. k \<notin> (\<lambda>i. ''progress_'' @ problemId (snd i)) ` set items \<longrightarrow> getItem ls' k = getItem ls k) \<and>
         (items \<noteq> [] \<longrightarrow> storage_size (entries ls') \<le> quota ls')"
  using assms
proof (induction items arbitrary: ls n)
  case Nil
  then show ?case by simp
next
  case (Cons i rest)
  let ?k = "''progress_'' @ problemId (snd i)"
  show ?case
  proof (cases "setItem ls ?k (status (snd i))")
    case (Inl e)
    with Cons.prems(1) show ?thesis by simp
  next
    case (Inr ls1)
    with Cons.prems(1) have rest: "pull_items rest ls1 (Suc n) = (ls', Suc n + length rest)" by simp
    from Cons.prems(2) have d: "distinct (map (\<lambda>i. problemId (snd i)) rest)"
      and fresh: "?k \<notin> (\<lambda>i. ''progress_'' @ problemId (snd i)) ` set rest" by auto
    from Cons.IH [OF rest d]
    have ih: "\<forall>i \<in> set rest. getItem ls' (''progress_'' @ problemId (snd i)) = Some (status (snd i))"
      "\<forall>k. k \<notin> (\<lambda>i. ''progress_'' @ problemId (snd i)) ` set rest \<longrightarrow> getItem ls' k = getItem ls1 k"
      "rest \<noteq> [] \<longrightarrow> storage_size (entries ls') \<le> quota ls'"
      by blast+
    from setItem_Inr [OF Inr]
    have g: "\<And>k. getItem ls1 k = (if k = ?k then Some (status (snd i)) else getItem ls k)"
      and sz: "storage_size (entries ls1) \<le> quota ls1"
      by (simp_all add: getItem_def update_conv')
    have here: "getItem ls' ?k = Some (status (snd i))"
      using ih(2) fresh g by simp
    have others: "\<forall>k. k \<notin> (\<lambda>i. ''progress_'' @ problemId (snd i)) ` set (i # rest) \<longrightarrow>
                     getItem ls' k = getItem ls k"
      using ih(2) g by simp
    have size: "storage_size (entries ls') \<le> quota ls'"
    proof (cases rest)
      case Nil
      with rest sz show ?thesis by simp
    next
      case (Cons a list)
      with ih(3) show ?thesis by simp
    qed
    from here ih(1) others size show ?thesis by simp
  qed
qed

lemma pull_noop:
  assumes "\<forall>i \<in> set items. getItem ls (''progress_'' @ problemId (snd i)) = Some (status (snd i))"
    and "items \<noteq> [] \<longrightarrow> storage_size (entries ls) \<le> quota ls"
  shows "pull_items items ls n = (ls, n + length items)"
  using assms
proof (induction items arbitrary: n)
  case Nil
  then show ?case by simp
next
  case (Cons i rest)
  from Cons.prems have "setItem ls (''progress_'' @ problemId (snd i)) (status (snd i)) = Inr ls"
    by (intro setItem_same) simp_all
  moreover from Cons.prems have "pull_items rest ls (Suc n) = (ls, Suc n + length rest)"
    by (intro Cons.IH) simp_all
  ultimately show ?case by simp
qed

lemma set_getAllProgress:
  "u \<noteq> [] \<Longrightarrow>
   set (getAllProgress (Some fs) u) = {(p, d). ((u, p), d) \<in> set (progress fs)}"
  by (auto simp: getAllProgress_def image_iff)

lemma length_getAllProgress:
  "u \<noteq> [] \<Longrightarrow>
   length (getAllProgress (Some fs) u) = length (filter (\<lambda>kd. fst (fst kd) = u) (progress fs))"
  by (simp add: getAllProgress_def)

lemma distinct_map_sort_key: "distinct (map f (sort_key g xs)) = distinct (map f xs)"
  by (simp add: distinct_map)

lemma distinct_getAllProgress:
  assumes "wf_store fs" "u \<noteq> []"
  shows "distinct (map (\<lambda>i. problemId (snd i)) (getAllProgress (Some fs) u))"
proof -
  let ?mine = "filter (\<lambda>kd. fst (fst kd) = u) (progress fs)"
  have d: "distinct (map fst ?mine)"
    using assms(1) by (simp add: wf_store_def distinct_map_filter)
  have eq: "map (\<lambda>kd. problemId (snd kd)) ?mine = map (\<lambda>kd. snd (fst kd)) ?mine"
    using assms(1) by (auto simp: wf_store_def)
  have "distinct (map (\<lambda>kd. snd (fst kd)) ?mine)"
  proof -
    have "inj_on (\<lambda>kd. snd (fst kd)) (set ?mine)"
    proof (rule inj_onI)
      fix a b assume ab: "a \<in> set ?mine" "b \<in> set ?mine" "snd (fst a) = snd (fst b)"
      then have "fst a = fst b" by (auto simp: prod_eq_iff)
      with d ab(1,2) show "a = b"
        by (meson distinct_map inj_onD)
    qed
    moreover from d have "distinct ?mine" by (simp add: distinct_map)
    ultimately show ?thesis by (simp add: distinct_map)
  qed
  then have "distinct (map (\<lambda>kd. problemId (snd kd)) ?mine)" by (simp only: eq)
  then have "distinct (map (\<lambda>i. problemId (snd i)) (map (\<lambda>kd. (snd (fst kd), snd kd)) ?mine))"
    by (simp add: o_def)
  then have "distinct (map (\<lambda>i. problemId (snd i))
               (sort_key (\<lambda>item. - int (lastUpdatedAt (snd item)))
                  (map (\<lambda>kd. (snd (fst kd), snd kd)) ?mine)))"
    by (simp only: distinct_map_sort_key)
  moreover have "getAllProgress (Some fs) u =
      sort_key (\<lambda>item. - int (lastUpdatedAt (snd item))) (map (\<lambda>kd. (snd (fst kd), snd kd)) ?mine)"
    using assms(2) by (simp add: getAllProgress_def)
  ultimately show ?thesis by (simp only:)
qed

lemma forget_updated_fields:
  "forget_updated a = forget_updated b \<Longrightarrow> problemId a = problemId b \<and> status a = status b"
  by (cases a, cases b) (simp add: forget_updated_def)

lemma items_of_ledger_view:
  assumes "ledger_view fs2 = ledger_view fs1" "u \<noteq> []"
  shows "\<forall>i2 \<in> set (getAllProgress (Some fs2) u). \<exists>i1 \<in> set (getAllProgress (Some fs1) u).
           problemId (snd i1) = problemId (snd i2) \<and> status (snd i1) = status (snd i2)"
    and "length (getAllProgress (Some fs2) u) = length (getAllProgress (Some fs1) u)"
proof -
  show "\<forall>i2 \<in> set (getAllProgress (Some fs2) u). \<exists>i1 \<in> set (getAllProgress (Some fs1) u).
           problemId (snd i1) = problemId (snd i2) \<and> status (snd i1) = status (snd i2)"
  proof
    fix i2 assume "i2 \<in> set (getAllProgress (Some fs2) u)"
    then have m2: "((u, fst i2), snd i2) \<in> set (progress fs2)"
      using assms(2) by (auto simp: set_getAllProgress)
    then have "((u, fst i2), forget_updated (snd i2)) \<in> set (ledger_view fs2)"
      by (force simp: ledger_view_def)
    with assms(1) have "((u, fst i2), forget_updated (snd i2)) \<in> set (ledger_view fs1)" by simp
    then obtain d1 where d1: "((u, fst i2), d1) \<in> set (progress fs1)"
      "forget_updated d1 = forget_updated (snd i2)"
      by (auto simp: ledger_view_def)
    from d1(1) have "(fst i2, d1) \<in> set (getAllProgress (Some fs1) u)"
      using assms(2) by (simp add: set_getAllProgress)
    with forget_updated_fields [OF d1(2)] show "\<exists>i1 \<in> set (getAllProgress (Some fs1) u).
           problemId (snd i1) = problemId (snd i2) \<and> status (snd i1) = status (snd i2)"
      by (intro bexI [of _ "(fst i2, d1)"]) simp_all
  qed
  have "\<And>fs. length (filter (\<lambda>kd. fst (fst kd) = u) (progress fs))
           = length (filter (\<lambda>kd. fst (fst kd) = u) (ledger_view fs))"
    by (simp add: ledger_view_def filter_map o_def)
  with assms show "length (getAllProgress (Some fs2) u) = length (getAllProgress (Some fs1) u)"
    by (simp add: length_getAllProgress)
qed

lemma reconcile_guard:
  "db = None \<or> u = [] \<Longrightarrow> reconcile ls db u = (ls, db)"
  by (auto simp: reconcile_def syncLocalStorageToFirestore_def syncFirestoreToLocalStorage_def)

lemma key_in_Object_keys: "getItem ls k = Some v \<Longrightarrow> k \<in> set (Object_keys ls)"
  by (auto simp: getItem_def Object_keys_def dest: map_of_SomeD intro: rev_image_eqI)

lemma push_result:
  assumes "u \<noteq> []"
  shows "\<exists>fs1. fst (syncLocalStorageToFirestore ls (Some fs) u) = Some fs1 \<and>
           (wf_store fs \<longrightarrow> wf_store fs1) \<and>
           (\<forall>k st. prefix ''progress_'' k \<and> getItem ls k = Some st \<and> st \<noteq> [] \<and> problem_of_key k \<noteq> [] \<longrightarrow>
              (\<exists>d. map_of (progress fs1) (u, problem_of_key k) = Some d \<and> status d = st))"
proof -
  let ?ks = "filter (prefix ''progress_'') (Object_keys ls)"
  have acc: "fst (Some fs, 0::nat) = Some fs" by simp
  have dk: "distinct ?ks" "\<forall>k \<in> set ?ks. prefix ''progress_'' k"
    by (simp_all add: Object_keys_def)
  from push_frame [OF assms acc, of ls ?ks]
  obtain fs1 where fs1: "fst (foldl (push_step ls u) (Some fs, 0) ?ks) = Some fs1"
    "wf_store fs \<longrightarrow> wf_store fs1"
    by blast
  from push_sets_status [OF assms acc dk, of ls] fs1(1)
  have st: "\<forall>k \<in> set ?ks. \<forall>st. getItem ls k = Some st \<and> st \<noteq> [] \<and> problem_of_key k \<noteq> [] \<longrightarrow>
              (\<exists>d. map_of (progress fs1) (u, problem_of_key k) = Some d \<and> status d = st)"
    by simp
  have "\<forall>k st. prefix ''progress_'' k \<and> getItem ls k = Some st \<and> st \<noteq> [] \<and> problem_of_key k \<noteq> [] \<longrightarrow>
              (\<exists>d. map_of (progress fs1) (u, problem_of_key k) = Some d \<and> status d = st)"
  proof (intro allI impI)
    fix k st
    assume a: "prefix ''progress_'' k \<and> getItem ls k = Some st \<and> st \<noteq> [] \<and> problem_of_key k \<noteq> []"
    then have "k \<in> set ?ks" using key_in_Object_keys [of ls k st] by simp
    with st a show "\<exists>d. map_of (progress fs1) (u, problem_of_key k) = Some d \<and> status d = st"
      by blast
  qed
  moreover have "fst (syncLocalStorageToFirestore ls (Some fs) u) = Some fs1"
    using assms fs1(1) by (simp add: syncLocalStorageToFirestore_def)
  ultimately show ?thesis using fs1(2) by blast
qed

lemma item_is_document:
  assumes "wf_store fs" "u \<noteq> []" "i \<in> set (getAllProgress (Some fs) u)"
  shows "map_of (progress fs) (u, problemId (snd i)) = Some (snd i)"
proof -
  from assms(2,3) have m: "((u, fst i), snd i) \<in> set (progress fs)"
    by (auto simp: set_getAllProgress)
  with assms(1) have "problemId (snd i) = fst i" by (auto simp: wf_store_def)
  moreover from assms(1) m have "map_of (progress fs) (u, fst i) = Some (snd i)"
    by (simp add: wf_store_def)
  ultimately show ?thesis by simp
qed

text \<open>
  C4, as the code has it. When the remote ledger is as the code writes it and the pull
  of the first run wrote every remote record to local storage, a second reconciliation
  right after the first leaves the local ledger as it is, leaves the user documents as
  they are, and leaves every progress record as it is but for \<open>lastUpdatedAt\<close>, which
  the push sets anew.
\<close>

theorem second_reconcile_changes_only_timestamps:
  assumes wf: "wf_database db"
    and complete:
      "snd (syncFirestoreToLocalStorage ls (fst (syncLocalStorageToFirestore ls db u)) u)
         = length (getAllProgress (fst (syncLocalStorageToFirestore ls db u)) u)"
  shows "fst (reconcile (fst (reconcile ls db u)) (snd (reconcile ls db u)) u) = fst (reconcile ls db u) \<and>
         map_option users (snd (reconcile (fst (reconcile ls db u)) (snd (reconcile ls db u)) u))
           = map_option users (snd (reconcile ls db u)) \<and>
         map_option ledger_view (snd (reconcile (fst (reconcile ls db u)) (snd (reconcile ls db u)) u))
           = map_option ledger_view (snd (reconcile ls db u))"
proof (cases "db = None \<or> u = []")
  case True
  then show ?thesis by (auto simp: reconcile_guard)
next
  case False
  then obtain fs where db: "db = Some fs" and u: "u \<noteq> []" by auto
  from wf db have wf0: "wf_store fs" by (simp add: wf_database_def)
  from push_result [OF u, of ls fs] wf0
  obtain fs1 where fs1: "fst (syncLocalStorageToFirestore ls (Some fs) u) = Some fs1"
    "wf_store fs1"
    and pushed: "\<forall>k st. prefix ''progress_'' k \<and> getItem ls k = Some st \<and> st \<noteq> [] \<and> problem_of_key k \<noteq> [] \<longrightarrow>
              (\<exists>d. map_of (progress fs1) (u, problem_of_key k) = Some d \<and> status d = st)"
    by blast
  let ?items1 = "getAllProgress (Some fs1) u"
  obtain ls1 n1 where p1: "pull_items ?items1 ls 0 = (ls1, n1)" by (cases "pull_items ?items1 ls 0")
  have s1: "syncFirestoreToLocalStorage ls (Some fs1) u = (ls1, n1)"
    using u p1 by (simp add: syncFirestoreToLocalStorage_def)
  from complete db fs1(1) s1 have n1: "n1 = 0 + length ?items1" by simp
  have r1: "reconcile ls db u = (ls1, Some fs1)"
    using db fs1(1) s1 by (simp add: reconcile_def)
  from pull_complete [OF p1 [unfolded n1] distinct_getAllProgress [OF fs1(2) u]]
  have pulled: "\<forall>i \<in> set ?items1. getItem ls1 (''progress_'' @ problemId (snd i)) = Some (status (snd i))"
    and kept: "\<forall>k. k \<notin> (\<lambda>i. ''progress_'' @ problemId (snd i)) ` set ?items1 \<longrightarrow> getItem ls1 k = getItem ls k"
    and fits: "?items1 \<noteq> [] \<longrightarrow> storage_size (entries ls1) \<le> quota ls1"
    by blast+
  have inv: "\<forall>k \<in> set (filter (prefix ''progress_'') (Object_keys ls1)).
               \<forall>st. getItem ls1 k = Some st \<and> st \<noteq> [] \<and> problem_of_key k \<noteq> [] \<longrightarrow>
                 (\<exists>d. map_of (progress fs1) (u, problem_of_key k) = Some d \<and> status d = st)"
  proof (intro ballI allI impI)
    fix k st
    assume k: "k \<in> set (filter (prefix ''progress_'') (Object_keys ls1))"
      and a: "getItem ls1 k = Some st \<and> st \<noteq> [] \<and> problem_of_key k \<noteq> []"
    show "\<exists>d. map_of (progress fs1) (u, problem_of_key k) = Some d \<and> status d = st"
    proof (cases "k \<in> (\<lambda>i. ''progress_'' @ problemId (snd i)) ` set ?items1")
      case True
      then obtain i where i: "i \<in> set ?items1" "k = ''progress_'' @ problemId (snd i)" by auto
      from pulled i a have "status (snd i) = st" by simp
      moreover from item_is_document [OF fs1(2) u i(1)] i(2)
      have "map_of (progress fs1) (u, problem_of_key k) = Some (snd i)" by simp
      ultimately show ?thesis by simp
    next
      case False
      with kept a have "getItem ls k = Some st" by simp
      with pushed k a show ?thesis by simp
    qed
  qed
  have acc: "fst (Some fs1, 0::nat) = Some fs1" by simp
  from push_noop [OF u acc inv]
  obtain fs2 where fs2: "fst (foldl (push_step ls1 u) (Some fs1, 0)
                           (filter (prefix ''progress_'') (Object_keys ls1))) = Some fs2"
    "users fs2 = users fs1" "ledger_view fs2 = ledger_view fs1"
    by blast
  have push2: "fst (syncLocalStorageToFirestore ls1 (Some fs1) u) = Some fs2"
    using u fs2(1) by (simp add: syncLocalStorageToFirestore_def)
  let ?items2 = "getAllProgress (Some fs2) u"
  from items_of_ledger_view [OF fs2(3) u]
  have corr: "\<forall>i2 \<in> set ?items2. \<exists>i1 \<in> set ?items1.
           problemId (snd i1) = problemId (snd i2) \<and> status (snd i1) = status (snd i2)"
    and len: "length ?items2 = length ?items1"
    by blast+
  have same: "\<forall>i \<in> set ?items2. getItem ls1 (''progress_'' @ problemId (snd i)) = Some (status (snd i))"
  proof
    fix i2 assume "i2 \<in> set ?items2"
    with corr obtain i1 where i1: "i1 \<in> set ?items1" "problemId (snd i1) = problemId (snd i2)"
      "status (snd i1) = status (snd i2)"
      by blast
    with pulled show "getItem ls1 (''progress_'' @ problemId (snd i2)) = Some (status (snd i2))"
      by fastforce
  qed
  have fits2: "?items2 \<noteq> [] \<longrightarrow> storage_size (entries ls1) \<le> quota ls1"
    using fits len by auto
  from pull_noop [OF same fits2, of 0]
  have pull2: "fst (syncFirestoreToLocalStorage ls1 (Some fs2) u) = ls1"
    using u by (simp add: syncFirestoreToLocalStorage_def)
  have r2: "reconcile ls1 (Some fs1) u = (ls1, Some fs2)"
    using push2 pull2 by (simp add: reconcile_def)
  from r1 r2 fs2 show ?thesis by simp
qed



lemmas eval_defs = reconcile_def syncLocalStorageToFirestore_def syncFirestoreToLocalStorage_def
  Object_keys_def push_step_def getItem_def truthy_str_def updateProblemProgress_def
  progressRef_get_def progressRef_update_def progressRef_set_def progress_updates_def
  updateUserStats_def userRef_update_def userRef_get_def apply_stats_def getAllProgress_def
  setItem_def storage_size_def status_of_def new_progress_def categoryName_def
  PROBLEM_CATEGORIES_def Let_def

lemma first_sync: "reconcile example_local (Some solved_store) ''u1'' = (example_local, Some after_first_sync)"
  by (simp add: eval_defs example_local_def solved_store_def after_first_sync_def)

lemma second_sync: "reconcile example_local (Some after_first_sync) ''u1'' = (example_local, Some after_second_sync)"
  by (simp add: eval_defs example_local_def solved_store_def after_first_sync_def after_second_sync_def)



theorem second_reconcile_changes_only_timestamps_witness:
  "snd (syncFirestoreToLocalStorage example_local
          (fst (syncLocalStorageToFirestore example_local (Some solved_store) ''u1'')) ''u1'')
     = length (getAllProgress (fst (syncLocalStorageToFirestore example_local (Some solved_store) ''u1'')) ''u1'') \<and>
   fst (reconcile example_local (Some after_first_sync) ''u1'') = example_local \<and>
   map_option users (snd (reconcile example_local (Some after_first_sync) ''u1''))
     = Some (users after_first_sync) \<and>
   map_option ledger_view (snd (reconcile example_local (Some after_first_sync) ''u1''))
     = Some (ledger_view after_first_sync)"
proof -
  have w: "wf_database (Some solved_store)"
    by (simp add: wf_database_def wf_store_def solved_store_def)
  have c: "snd (syncFirestoreToLocalStorage example_local
          (fst (syncLocalStorageToFirestore example_local (Some solved_store) ''u1'')) ''u1'')
     = length (getAllProgress (fst (syncLocalStorageToFirestore example_local (Some solved_store) ''u1'')) ''u1'')"
    by (simp add: eval_defs example_local_def solved_store_def)
  from second_reconcile_changes_only_timestamps [OF w c] w c show ?thesis by (simp add: first_sync)
qed

theorem second_reconcile_counterexample:
  "reconcile example_local (Some solved_store) ''u1'' = (example_local, Some after_first_sync) \<and>
   reconcile example_local (Some after_first_sync) ''u1'' = (example_local, Some after_second_sync) \<and>
   progress after_second_sync \<noteq> progress after_first_sync \<and>
   Some after_second_sync \<noteq> Some after_first_sync"
proof -
  have "progress after_second_sync \<noteq> progress after_first_sync"
    by (simp add: after_first_sync_def after_second_sync_def)
  then have "Some after_second_sync \<noteq> Some after_first_sync" by auto
  with first_sync second_sync \<open>progress after_second_sync \<noteq> progress after_first_sync\<close>
  show ?thesis by simp
qed

section \<open>Properties of auth-ui.js: the content gate\<close>

lemma children_detach [simp]:
  "children (nodes (detach x d) n) = removeAll x (children (nodes d n))"
  by (simp add: detach_def)

lemma authGate_detach [simp]: "authGate (nodes (detach x d) n) = authGate (nodes d n)"
  by (simp add: detach_def)

lemma children_appendChild [simp]:
  "children (nodes (appendChild p x d) n) =
     (if n = p then removeAll x (children (nodes d n)) @ [x]
      else removeAll x (children (nodes d n)))"
  by (simp add: appendChild_def Let_def)

lemma authGate_appendChild [simp]: "authGate (nodes (appendChild p x d) n) = authGate (nodes d n)"
  by (simp add: appendChild_def Let_def)

lemma next_node_detach [simp]: "next_node (detach x d) = next_node d"
  by (simp add: detach_def)

lemma next_node_appendChild [simp]: "next_node (appendChild p x d) = next_node d"
  by (simp add: appendChild_def Let_def)

























end
